theory Spec2Isabelle
  imports Main
begin

section \<open>The Jira plugin: data model\<close>

text \<open>
  The plugin (\<^verbatim>\<open>src/jira/__init__.py\<close>) scans chat messages for issue keys such as
  \<^verbatim>\<open>PROJECT-123\<close>, looks each one up at the tracker and answers with one line per issue.

  Message texts are modelled as \<^typ>\<open>string\<close>, a character being a code point below
  256; the character classes below are those Python's \<^verbatim>\<open>re\<close> and \<^verbatim>\<open>str\<close> use on
  these code points. Python integers are \<^typ>\<open>int\<close>.
\<close>

record config =
  jira_url :: string
  rest_api_suffix :: string
  ignored_users :: "string list"
  issue_cooldown :: int
  max_issues_per_message :: int
  include_url :: bool
  respond_to_urls :: bool

subsection \<open>Character classes\<close>

definition is_upper :: "char \<Rightarrow> bool" where
  "is_upper c \<longleftrightarrow> c \<in> set ''ABCDEFGHIJKLMNOPQRSTUVWXYZ''"

definition is_lower :: "char \<Rightarrow> bool" where
  "is_lower c \<longleftrightarrow> c \<in> set ''abcdefghijklmnopqrstuvwxyz''"

definition is_digit :: "char \<Rightarrow> bool" where
  "is_digit c \<longleftrightarrow> c \<in> set ''0123456789''"

text \<open>
  \<^verbatim>\<open>\w\<close>: letters, digits and the underscore; above 127 the letters and numeric
  characters of Latin-1 (all from 0xC0 on but the signs 0xD7 and 0xF7, and nine below).
\<close>

definition is_latin1_word :: "char \<Rightarrow> bool" where
  "is_latin1_word c \<longleftrightarrow>
     c \<in> set [CHR 0xAA, CHR 0xB2, CHR 0xB3, CHR 0xB5, CHR 0xB9, CHR 0xBA, CHR 0xBC, CHR 0xBD,
               CHR 0xBE, CHR 0xC0, CHR 0xC1, CHR 0xC2, CHR 0xC3, CHR 0xC4, CHR 0xC5, CHR 0xC6,
               CHR 0xC7, CHR 0xC8, CHR 0xC9, CHR 0xCA, CHR 0xCB, CHR 0xCC, CHR 0xCD, CHR 0xCE,
               CHR 0xCF, CHR 0xD0, CHR 0xD1, CHR 0xD2, CHR 0xD3, CHR 0xD4, CHR 0xD5, CHR 0xD6,
               CHR 0xD8, CHR 0xD9, CHR 0xDA, CHR 0xDB, CHR 0xDC, CHR 0xDD, CHR 0xDE, CHR 0xDF,
               CHR 0xE0, CHR 0xE1, CHR 0xE2, CHR 0xE3, CHR 0xE4, CHR 0xE5, CHR 0xE6, CHR 0xE7,
               CHR 0xE8, CHR 0xE9, CHR 0xEA, CHR 0xEB, CHR 0xEC, CHR 0xED, CHR 0xEE, CHR 0xEF,
               CHR 0xF0, CHR 0xF1, CHR 0xF2, CHR 0xF3, CHR 0xF4, CHR 0xF5, CHR 0xF6, CHR 0xF8,
               CHR 0xF9, CHR 0xFA, CHR 0xFB, CHR 0xFC, CHR 0xFD, CHR 0xFE, CHR 0xFF]"

definition is_word :: "char \<Rightarrow> bool" where
  "is_word c \<longleftrightarrow>
     is_upper c \<or> is_lower c \<or> is_digit c \<or> c = CHR ''_'' \<or> is_latin1_word c"

text \<open>
  \<^verbatim>\<open>\s\<close> and the characters \<^verbatim>\<open>str.strip()\<close> removes: tab, line feed, vertical tab,
  form feed, carriage return, the four separators 0x1C..0x1F, the space, the next-line
  control 0x85 and the no-break space 0xA0.
\<close>

definition is_space :: "char \<Rightarrow> bool" where
  "is_space c \<longleftrightarrow>
     c \<in> set [CHR 0x09, CHR 0x0A, CHR 0x0B, CHR 0x0C, CHR 0x0D,
               CHR 0x1C, CHR 0x1D, CHR 0x1E, CHR 0x1F, CHR '' '',
               CHR 0x85, CHR 0xA0]"

text \<open>
  \<^verbatim>\<open>str.lower()\<close>, one character at a time: the capitals A to Z, and the capitals
  0xC0 to 0xDE of Latin-1 (but the sign 0xD7), go to the letter 32 places up.
\<close>

definition latin1_capitals :: string where
  "latin1_capitals =
     [CHR 0xC0, CHR 0xC1, CHR 0xC2, CHR 0xC3, CHR 0xC4, CHR 0xC5, CHR 0xC6, CHR 0xC7,
      CHR 0xC8, CHR 0xC9, CHR 0xCA, CHR 0xCB, CHR 0xCC, CHR 0xCD, CHR 0xCE, CHR 0xCF,
      CHR 0xD0, CHR 0xD1, CHR 0xD2, CHR 0xD3, CHR 0xD4, CHR 0xD5, CHR 0xD6, CHR 0xD8,
      CHR 0xD9, CHR 0xDA, CHR 0xDB, CHR 0xDC, CHR 0xDD, CHR 0xDE]"

definition latin1_smalls :: string where
  "latin1_smalls =
     [CHR 0xE0, CHR 0xE1, CHR 0xE2, CHR 0xE3, CHR 0xE4, CHR 0xE5, CHR 0xE6, CHR 0xE7,
      CHR 0xE8, CHR 0xE9, CHR 0xEA, CHR 0xEB, CHR 0xEC, CHR 0xED, CHR 0xEE, CHR 0xEF,
      CHR 0xF0, CHR 0xF1, CHR 0xF2, CHR 0xF3, CHR 0xF4, CHR 0xF5, CHR 0xF6, CHR 0xF8,
      CHR 0xF9, CHR 0xFA, CHR 0xFB, CHR 0xFC, CHR 0xFD, CHR 0xFE]"

definition lower_char :: "char \<Rightarrow> char" where
  "lower_char c =
     (case map_of (zip (''ABCDEFGHIJKLMNOPQRSTUVWXYZ'' @ latin1_capitals)
                       (''abcdefghijklmnopqrstuvwxyz'' @ latin1_smalls)) c of
        None \<Rightarrow> c
      | Some l \<Rightarrow> l)"

definition lower :: "string \<Rightarrow> string" where
  "lower s = map lower_char s"

text \<open>\<^verbatim>\<open>s.startswith(p)\<close>.\<close>

definition startswith :: "string \<Rightarrow> string \<Rightarrow> bool" where
  "startswith s p \<longleftrightarrow> take (length p) s = p"

section \<open>The issue extractor\<close>

subsection \<open>\<^verbatim>\<open>re.findall(r"\b([A-Z]+-\d+)\b", message_body)\<close>\<close>

text \<open>
  \<^verbatim>\<open>\b\<close> after a word character holds at the end of the text and before a character
  that is not a word character.
\<close>

definition at_word_end :: "string \<Rightarrow> bool" where
  "at_word_end s = (case s of [] \<Rightarrow> True | c # _ \<Rightarrow> \<not> is_word c)"

text \<open>
  One attempt of the pattern at the head of \<open>s\<close>, the character before \<open>s\<close> not being a
  word character: the longest run of capitals, a hyphen, the longest run of digits, and a
  word boundary. Giving back characters never helps: a shorter run of capitals is followed
  by a capital, not by the hyphen, and a shorter run of digits is followed by a digit, where
  \<^verbatim>\<open>\b\<close> fails (lemma \<open>match_issue_key_iff\<close> states this). The result is the key and the
  text after it.
\<close>

definition match_issue_key :: "string \<Rightarrow> (string \<times> string) option" where
  "match_issue_key s =
     (let letters = takeWhile is_upper s; r1 = dropWhile is_upper s in
      if letters = [] then None
      else case r1 of
          [] \<Rightarrow> None
        | c # r2 \<Rightarrow>
            if c \<noteq> CHR ''-'' then None
            else let ds = takeWhile is_digit r2; r3 = dropWhile is_digit r2 in
              if ds = [] then None
              else if at_word_end r3 then Some (letters @ CHR ''-'' # ds, r3)
              else None)"

lemma match_issue_key_shorter:
  "match_issue_key s = Some (k, r) \<Longrightarrow> length r < length s"
proof -
  assume m: "match_issue_key s = Some (k, r)"
  have a: "length (dropWhile is_digit t) \<le> length t" for t
    by (rule length_dropWhile_le)
  have b: "length (dropWhile is_upper s) \<le> length s"
    by (rule length_dropWhile_le)
  from m obtain c r2 where r1: "dropWhile is_upper s = c # r2" and r: "r = dropWhile is_digit r2"
    by (auto simp: match_issue_key_def Let_def split: if_splits list.splits)
  from a [of r2] r have "length r \<le> length r2" by simp
  also from r1 have "length r2 < length (dropWhile is_upper s)" by simp
  finally show ?thesis using b by simp
qed

text \<open>
  The scan: \<open>prev_word\<close> says whether the character before the current position is a word
  character (false at the start of the text). A match is taken at the leftmost position
  where the pattern matches, and the scan goes on after the match.
\<close>

function findall_issue_keys_from :: "bool \<Rightarrow> string \<Rightarrow> string list" where
  "findall_issue_keys_from prev_word [] = []"
| "findall_issue_keys_from prev_word (c # cs) =
     (if prev_word then findall_issue_keys_from (is_word c) cs
      else case match_issue_key (c # cs) of
          Some (k, rest) \<Rightarrow> k # findall_issue_keys_from True rest
        | None \<Rightarrow> findall_issue_keys_from (is_word c) cs)"
  by pat_completeness auto
termination
  by (relation "measure (\<lambda>(p, s). length s)")
     (auto dest: match_issue_key_shorter)

definition findall_issue_keys :: "string \<Rightarrow> string list" where
  "findall_issue_keys message_body = findall_issue_keys_from False message_body"

subsection \<open>The URL filter\<close>

text \<open>\<^verbatim>\<open>re.search(r"https?://\S*", message_body)\<close>: some suffix starts with the scheme.\<close>

definition scheme_rest :: "string \<Rightarrow> string option" where
  "scheme_rest s =
     (if startswith s ''https://'' then Some (drop 8 s)
      else if startswith s ''http://'' then Some (drop 7 s)
      else None)"

fun contains_url :: "string \<Rightarrow> bool" where
  "contains_url [] = False"
| "contains_url (c # cs) = (scheme_rest (c # cs) \<noteq> None \<or> contains_url cs)"

text \<open>
  \<^verbatim>\<open>re.search(rf"https?://\S*{re.escape(issue)}\b", message_body)\<close>.
  \<open>literal_then_boundary issue prev s\<close>: the text \<open>s\<close>, which follows the character
  \<open>prev\<close>, starts with \<open>issue\<close>, and a word boundary follows.
\<close>

definition word_boundary :: "char \<Rightarrow> string \<Rightarrow> bool" where
  "word_boundary prev s \<longleftrightarrow> is_word prev \<noteq> (case s of [] \<Rightarrow> False | c # _ \<Rightarrow> is_word c)"

definition literal_then_boundary :: "string \<Rightarrow> char \<Rightarrow> string \<Rightarrow> bool" where
  "literal_then_boundary issue prev s \<longleftrightarrow>
     startswith s issue \<and> word_boundary (last (prev # issue)) (drop (length issue) s)"

text \<open>\<^verbatim>\<open>\S*\<close> then the literal: any number of characters that are not white space.\<close>

fun nonspace_run_then :: "string \<Rightarrow> char \<Rightarrow> string \<Rightarrow> bool" where
  "nonspace_run_then issue prev [] = literal_then_boundary issue prev []"
| "nonspace_run_then issue prev (c # cs) =
     (literal_then_boundary issue prev (c # cs)
      \<or> (\<not> is_space c \<and> nonspace_run_then issue c cs))"

fun issue_in_url :: "string \<Rightarrow> string \<Rightarrow> bool" where
  "issue_in_url issue [] = False"
| "issue_in_url issue (c # cs) =
     ((case scheme_rest (c # cs) of
         Some r \<Rightarrow> nonspace_run_then issue (CHR ''/'') r
       | None \<Rightarrow> False)
      \<or> issue_in_url issue cs)"

text \<open>
  The loop
  \<^verbatim>\<open>for issue in issue_matches:
      if re.search(...): issue_matches.remove(issue)\<close>
  The list iterator holds an index \<open>i\<close> into the list it walks and stops when the index
  reaches the current length; \<^verbatim>\<open>remove\<close> deletes the first element equal to its
  argument from that same list.
\<close>

function remove_url_issues :: "string \<Rightarrow> string list \<Rightarrow> nat \<Rightarrow> string list" where
  "remove_url_issues message_body issue_matches i =
     (if i < length issue_matches then
        (let issue = issue_matches ! i in
         if issue_in_url issue message_body
         then remove_url_issues message_body (remove1 issue issue_matches) (Suc i)
         else remove_url_issues message_body issue_matches (Suc i))
      else issue_matches)"
  by pat_completeness auto
termination
  by (relation "measure (\<lambda>(b, xs, i). length xs - i)")
     (auto simp: length_remove1)

declare remove_url_issues.simps [simp del]

subsection \<open>Deduplication and the cap\<close>

text \<open>
  \<^verbatim>\<open>list(dict.fromkeys(issue_matches))\<close>: a dictionary keeps its keys in the order of
  their first insertion; \<open>d\<close> is the list of keys inserted so far.
\<close>

fun dict_fromkeys :: "'a list \<Rightarrow> 'a list \<Rightarrow> 'a list" where
  "dict_fromkeys d [] = d"
| "dict_fromkeys d (x # xs) = dict_fromkeys (if x \<in> set d then d else d @ [x]) xs"

text \<open>
  The slice \<^verbatim>\<open>xs[:n]\<close>: a negative \<open>n\<close> counts from the end.
\<close>

definition slice_to :: "'a list \<Rightarrow> int \<Rightarrow> 'a list" where
  "slice_to xs n = (if n < 0 then take (nat (int (length xs) + n)) xs else take (nat n) xs)"

text \<open>
  Lines 82 to 104 of \<^verbatim>\<open>_process_message_for_issues\<close>: the candidates of a message,
  the empty list where the function returns early.
\<close>

definition extract_issues :: "config \<Rightarrow> string \<Rightarrow> string list" where
  "extract_issues cfg message_body =
     (let issue_matches = findall_issue_keys message_body in
      if issue_matches = [] then []
      else
        let issue_matches =
              (if \<not> respond_to_urls cfg \<and> contains_url message_body
               then remove_url_issues message_body issue_matches 0
               else issue_matches) in
        if issue_matches = [] then []
        else
          let unique_issues = dict_fromkeys [] issue_matches;
              max_issues = max_issues_per_message cfg in
          if int (length unique_issues) > max_issues
          then slice_to unique_issues max_issues
          else unique_issues)"

section \<open>The plugin's state and its environment\<close>

text \<open>
  \<open>projects\<close> and \<open>recent_issues\<close> are the two attributes of the plugin object. The other
  three fields record what the plugin has done: how often it has read the clock, the URLs
  it has requested from the tracker, and the texts it has sent into the conversation.
\<close>

record plugin =
  projects :: "string list"
  recent_issues :: "string \<rightharpoonup> int"
  ticks :: nat
  requests :: "string list"
  replies :: "string list"

text \<open>
  What a GET at the tracker can come to: an exception of the transport, or a response with
  a status and a body. Of the body of an issue the plugin reads
  \<^verbatim>\<open>data["fields"]["summary"]\<close>: \<open>Summary t\<close> is a body where this gives a value printed as
  \<open>t\<close>, \<open>No_summary\<close> one where \<^verbatim>\<open>response.json()\<close> or the subscripts raise.

  Of the project list the plugin walks the value \<^verbatim>\<open>response.json()\<close> gives (the body is
  \<open>None\<close> where that call raises) and reads \<^verbatim>\<open>project["key"]\<close> of every element. The
  value is a list (\<open>Json_array es\<close>: for each element the value of the subscript, or
  \<open>None\<close> where the subscript raises, on an object without that member and on anything
  that is not an object), an object (\<open>Json_object names\<close>, with its member names), a string
  (\<open>Json_string t\<close>), or a number, a boolean or null (\<open>Json_scalar\<close>).
\<close>

datatype issue_body = No_summary | Summary string

datatype projects_data =
  Json_array "string option list" | Json_object "string list" | Json_string string | Json_scalar

datatype 'b http_result = Transport_error | Response int 'b

text \<open>
  The environment of one call: \<^verbatim>\<open>urllib.parse.urljoin\<close>, the value of
  \<^verbatim>\<open>int(time.time())\<close> at the n-th reading of the clock, the tracker's answers by URL,
  and the bot's own identity \<^verbatim>\<open>self.client.mxid\<close>.
\<close>

record world =
  urljoin :: "string \<Rightarrow> string \<Rightarrow> string"
  clock :: "nat \<Rightarrow> int"
  get_issue :: "string \<Rightarrow> issue_body http_result"
  get_projects :: "string \<Rightarrow> projects_data option http_result"
  mxid :: string

datatype message_type =
  Text | Emote | Notice | Image | Sticker | Video | Audio | File | Location

record event =
  msgtype :: message_type
  sender :: string
  body :: string

section \<open>The cooldown ledger\<close>

text \<open>
  \<^verbatim>\<open>_is_issue_on_cooldown\<close>, with the time and the configured window as arguments. The
  entries with \<^verbatim>\<open>(now - timestamp) > cooldown_seconds\<close> are deleted first; a key still in
  the ledger is on cooldown; any other key is recorded with the time \<open>now\<close>.
\<close>

definition is_issue_on_cooldown ::
  "int \<Rightarrow> int \<Rightarrow> (string \<rightharpoonup> int) \<Rightarrow> string \<Rightarrow> bool \<times> (string \<rightharpoonup> int)" where
  "is_issue_on_cooldown now cooldown_seconds recent issue_key =
     (let kept = (\<lambda>key. case recent key of
                     None \<Rightarrow> None
                   | Some timestamp \<Rightarrow>
                       if now - timestamp > cooldown_seconds then None else Some timestamp) in
      if kept issue_key \<noteq> None then (True, kept)
      else (False, kept(issue_key \<mapsto> now)))"

section \<open>The tracker client\<close>

definition issue_url :: "world \<Rightarrow> config \<Rightarrow> string \<Rightarrow> string" where
  "issue_url W cfg issue_key =
     (let api_base = urljoin W (jira_url cfg) (rest_api_suffix cfg) in
      urljoin W (api_base @ ''/'') (''issue/'' @ issue_key))"

text \<open>
  \<^verbatim>\<open>_fetch_issue_info\<close>: the line for the issue, or \<open>None\<close>. Every exception is caught
  and gives \<open>None\<close>.
\<close>

definition fetch_issue_info ::
  "world \<Rightarrow> config \<Rightarrow> string \<Rightarrow> plugin \<Rightarrow> string option \<times> plugin" where
  "fetch_issue_info W cfg issue_key s =
     (let s' = s\<lparr>requests := requests s @ [issue_url W cfg issue_key]\<rparr> in
      case get_issue W (issue_url W cfg issue_key) of
        Transport_error \<Rightarrow> (None, s')
      | Response status data \<Rightarrow>
          if status = 200 then
            (case data of
               No_summary \<Rightarrow> (None, s')
             | Summary title \<Rightarrow>
                 if include_url cfg then
                   (let browse_url = urljoin W (jira_url cfg) (''browse/'' @ issue_key) in
                    (Some (''['' @ issue_key @ '']('' @ browse_url @ ''): '' @ title), s'))
                 else (Some (issue_key @ '': '' @ title), s'))
          else (None, s'))"

definition projects_url :: "world \<Rightarrow> config \<Rightarrow> string" where
  "projects_url W cfg =
     (let api_base = urljoin W (jira_url cfg) (rest_api_suffix cfg) in
      urljoin W (api_base @ ''/'') ''project'')"

text \<open>
  \<^verbatim>\<open>[project["key"] for project in projects_data]\<close>, \<open>None\<close> where it raises. Walking
  a list gives its elements; walking an object gives its member names and walking a string
  its characters, all of them strings, on which the subscript raises; a number, a boolean
  and null cannot be walked.
\<close>

definition project_keys :: "projects_data \<Rightarrow> string list option" where
  "project_keys projects_data =
     (case projects_data of
        Json_array es \<Rightarrow> those es
      | Json_object names \<Rightarrow> those (map (\<lambda>name. None) names)
      | Json_string t \<Rightarrow> those (map (\<lambda>c. None) t)
      | Json_scalar \<Rightarrow> None)"

text \<open>
  \<^verbatim>\<open>_update_projects\<close>. The list comprehension is evaluated in full before the
  assignment to \<^verbatim>\<open>self._projects\<close>, so an exception in it leaves the old list.
\<close>

definition update_projects_internal :: "world \<Rightarrow> config \<Rightarrow> plugin \<Rightarrow> bool \<times> plugin" where
  "update_projects_internal W cfg s =
     (let s' = s\<lparr>requests := requests s @ [projects_url W cfg]\<rparr> in
      case get_projects W (projects_url W cfg) of
        Transport_error \<Rightarrow> (False, s')
      | Response status json \<Rightarrow>
          if status = 200 then
            (case json of
               None \<Rightarrow> (False, s')
             | Some projects_data \<Rightarrow>
                 (case project_keys projects_data of
                    None \<Rightarrow> (False, s')
                  | Some keys \<Rightarrow> (True, s'\<lparr>projects := keys\<rparr>)))
          else (False, s'))"

text \<open>\<^verbatim>\<open>str(n)\<close> for a length.\<close>

fun str_nat :: "nat \<Rightarrow> string" where
  "str_nat n =
     (if n < 10 then [''0123456789'' ! n]
      else str_nat (n div 10) @ [''0123456789'' ! (n mod 10)])"

declare str_nat.simps [simp del]

text \<open>The command \<^verbatim>\<open>!jira update\<close>.\<close>

definition update_projects :: "world \<Rightarrow> config \<Rightarrow> plugin \<Rightarrow> plugin" where
  "update_projects W cfg s =
     (let (success, s') = update_projects_internal W cfg s in
      if success then
        s'\<lparr>replies := replies s' @
             [''Successfully updated projects list. Found '' @ str_nat (length (projects s'))
              @ '' projects.'']\<rparr>
      else
        s'\<lparr>replies := replies s' @
             [''Failed to update projects list. Check logs for details.'']\<rparr>)"

text \<open>\<^verbatim>\<open>_load_projects\<close>, called once by \<^verbatim>\<open>start\<close>.\<close>

definition load_projects :: "world \<Rightarrow> config \<Rightarrow> plugin \<Rightarrow> plugin" where
  "load_projects W cfg s =
     (if projects s = [] then snd (update_projects_internal W cfg s) else s)"

section \<open>The message pipeline\<close>

text \<open>\<^verbatim>\<open>issue_key.split("-")[0]\<close>.\<close>

definition project_key_of :: "string \<Rightarrow> string" where
  "project_key_of issue_key = takeWhile (\<lambda>c. c \<noteq> CHR ''-'') issue_key"

text \<open>
  The loop over \<^verbatim>\<open>unique_issues\<close> (lines 108 to 122), with the responses collected so
  far. \<^verbatim>\<open>if issue_info:\<close> is false for \<open>None\<close> and for the empty string.
\<close>

fun process_issues ::
  "world \<Rightarrow> config \<Rightarrow> string list \<Rightarrow> string list \<times> plugin \<Rightarrow> string list \<times> plugin" where
  "process_issues W cfg [] (responses, s) = (responses, s)"
| "process_issues W cfg (issue_key # rest) (responses, s) =
     (if project_key_of issue_key \<notin> set (projects s)
      then process_issues W cfg rest (responses, s)
      else
        let (on_cooldown, recent) =
              is_issue_on_cooldown (clock W (ticks s)) (issue_cooldown cfg)
                (recent_issues s) issue_key;
            s1 = s\<lparr>recent_issues := recent, ticks := Suc (ticks s)\<rparr> in
        if on_cooldown then process_issues W cfg rest (responses, s1)
        else
          let (issue_info, s2) = fetch_issue_info W cfg issue_key s1 in
          case issue_info of
            None \<Rightarrow> process_issues W cfg rest (responses, s2)
          | Some line \<Rightarrow>
              if line = [] then process_issues W cfg rest (responses, s2)
              else process_issues W cfg rest (responses @ [line], s2))"

text \<open>\<^verbatim>\<open>sep.join(xs)\<close>.\<close>

fun str_join :: "string \<Rightarrow> string list \<Rightarrow> string" where
  "str_join sep [] = []"
| "str_join sep [x] = x"
| "str_join sep (x # y # ys) = x @ sep @ str_join sep (y # ys)"

text \<open>Lines 124 to 132: the reply for the collected responses.\<close>

definition respond_with :: "string \<Rightarrow> string list \<Rightarrow> plugin \<Rightarrow> plugin" where
  "respond_with message_body responses s =
     (if responses \<noteq> [] then
        (let formatted_responses =
               (if startswith (lower message_body) ''[off]''
                then map (\<lambda>response. ''[off] '' @ response) responses
                else responses);
             response_text = str_join [CHR 0x0A] formatted_responses in
         s\<lparr>replies := replies s @ [response_text]\<rparr>)
      else s)"

definition process_message_for_issues :: "world \<Rightarrow> config \<Rightarrow> event \<Rightarrow> plugin \<Rightarrow> plugin" where
  "process_message_for_issues W cfg evt s =
     (let message_body = body evt;
          unique_issues = extract_issues cfg message_body in
      if unique_issues = [] then s
      else
        let (responses, s') = process_issues W cfg unique_issues ([], s) in
        respond_with message_body responses s')"

subsection \<open>The sender filter\<close>

text \<open>\<^verbatim>\<open>nick.strip()\<close> and \<^verbatim>\<open>user_id.split(":")[0].lstrip("@")\<close>.\<close>

definition strip :: "string \<Rightarrow> string" where
  "strip s = rev (dropWhile is_space (rev (dropWhile is_space s)))"

definition username_of :: "string \<Rightarrow> string" where
  "username_of user_id =
     dropWhile (\<lambda>c. c = CHR ''@'') (takeWhile (\<lambda>c. c \<noteq> CHR '':'') user_id)"

definition is_ignored_user :: "config \<Rightarrow> string \<Rightarrow> bool" where
  "is_ignored_user cfg user_id =
     (if ignored_users cfg = [] then False
      else
        let ignored_list = map strip (ignored_users cfg);
            username = username_of user_id in
        username \<in> set ignored_list)"

definition on_message :: "world \<Rightarrow> config \<Rightarrow> event \<Rightarrow> plugin \<Rightarrow> plugin" where
  "on_message W cfg evt s =
     (if msgtype evt \<noteq> Text then s
      else if is_ignored_user cfg (sender evt) then s
      else if sender evt = mxid W then s
      else process_message_for_issues W cfg evt s)"

section \<open>Descriptions used in the statements\<close>

text \<open>
  The keys of a candidate list for which a lookup is attempted: those whose project is
  known and which are not on cooldown, with the ledger and the number of clock readings
  after the walk. It reads the clock and the configuration, never the tracker.
\<close>

fun admit ::
  "(nat \<Rightarrow> int) \<Rightarrow> config \<Rightarrow> string list \<Rightarrow> string list \<Rightarrow> (string \<rightharpoonup> int) \<times> nat
     \<Rightarrow> string list \<times> (string \<rightharpoonup> int) \<times> nat" where
  "admit clk cfg projs [] (recent, n) = ([], recent, n)"
| "admit clk cfg projs (k # ks) (recent, n) =
     (if project_key_of k \<notin> set projs then admit clk cfg projs ks (recent, n)
      else
        let c = is_issue_on_cooldown (clk n) (issue_cooldown cfg) recent k;
            r = admit clk cfg projs ks (snd c, Suc n) in
        if fst c then r else (k # fst r, snd r))"

text \<open>The line a lookup of the key gives, if it gives one.\<close>

definition issue_line :: "world \<Rightarrow> config \<Rightarrow> string \<Rightarrow> string option" where
  "issue_line W cfg k =
     (case get_issue W (issue_url W cfg k) of
        Response status (Summary title) \<Rightarrow>
          if status = 200 then
            Some (if include_url cfg
                  then ''['' @ k @ '']('' @ urljoin W (jira_url cfg) (''browse/'' @ k)
                       @ ''): '' @ title
                  else k @ '': '' @ title)
          else None
      | _ \<Rightarrow> None)"

text \<open>The resolved issues among the keys: each with the title the tracker gave.\<close>

definition resolved_issues :: "world \<Rightarrow> config \<Rightarrow> string list \<Rightarrow> (string \<times> string) list" where
  "resolved_issues W cfg ks =
     List.map_filter
       (\<lambda>k. case get_issue W (issue_url W cfg k) of
               Response status (Summary title) \<Rightarrow>
                 if status = 200 then Some (k, title) else None
             | _ \<Rightarrow> None) ks"

section \<open>A sample installation\<close>

text \<open>
  A configuration, a tracker and a plugin state on which the theorems are tried out. The
  tracker knows the issues JIRA-42 and ABC-1, answers 404 for every other issue, and lists
  the projects JIRA and ABC; the clock reads 1000 seconds and advances by one at each
  reading.
\<close>

definition example_config :: config where
  "example_config =
     \<lparr>jira_url = ''https://tracker/'', rest_api_suffix = ''rest/api/2'',
      ignored_users = ['' bob '', ''eve''], issue_cooldown = 60,
      max_issues_per_message = 5, include_url = False, respond_to_urls = False\<rparr>"

definition example_world :: world where
  "example_world =
     \<lparr>urljoin = (\<lambda>base url. base @ url),
      clock = (\<lambda>n. 1000 + int n),
      get_issue = (\<lambda>url.
        if url = ''https://tracker/rest/api/2/issue/JIRA-42''
          then Response 200 (Summary ''Fix login bug'')
        else if url = ''https://tracker/rest/api/2/issue/ABC-1''
          then Response 200 (Summary ''T'')
        else Response 404 No_summary),
      get_projects = (\<lambda>url. Response 200 (Some (Json_array [Some ''JIRA'', Some ''ABC'']))),
      mxid = ''@jirabot:example.org''\<rparr>"

text \<open>The same tracker, answering the project request with the empty object \<^verbatim>\<open>{}\<close>.\<close>

definition empty_object_world :: world where
  "empty_object_world =
     example_world\<lparr>get_projects := (\<lambda>url. Response 200 (Some (Json_object [])))\<rparr>"

definition example_plugin :: plugin where
  "example_plugin =
     \<lparr>projects = [''JIRA'', ''ABC''], recent_issues = Map.empty, ticks = 0,
      requests = [], replies = []\<rparr>"

section \<open>The patterns, stated on the text\<close>

text \<open>
  What one attempt of the key pattern finds: the text starts with capitals, a hyphen and
  digits, and what follows does not start with a word character. The split is unique, so
  the order in which a backtracking matcher tries the runs does not matter.
\<close>

lemma hyphen_not_upper: "\<not> is_upper (CHR ''-'')"
  by (simp add: is_upper_def)

lemma digit_is_word: "is_digit c \<Longrightarrow> is_word c"
  by (simp add: is_word_def)

lemma takeWhile_run:
  assumes "\<forall>c \<in> set xs. P c" and "r = [] \<or> \<not> P (hd r)"
  shows "takeWhile P (xs @ r) = xs" and "dropWhile P (xs @ r) = r"
proof -
  have t: "takeWhile P r = []" using assms(2) by (cases r) auto
  have d: "dropWhile P r = r" using assms(2) by (cases r) auto
  show "takeWhile P (xs @ r) = xs" using assms(1) t by (simp add: takeWhile_append2)
  show "dropWhile P (xs @ r) = r" using assms(1) d by (simp add: dropWhile_append2)
qed

lemma match_issue_key_iff:
  "match_issue_key s = Some (k, r) \<longleftrightarrow>
     (\<exists>letters ds. s = letters @ CHR ''-'' # ds @ r \<and> k = letters @ CHR ''-'' # ds \<and>
        letters \<noteq> [] \<and> (\<forall>c \<in> set letters. is_upper c) \<and>
        ds \<noteq> [] \<and> (\<forall>c \<in> set ds. is_digit c) \<and> at_word_end r)"
proof
  assume m: "match_issue_key s = Some (k, r)"
  define letters where "letters = takeWhile is_upper s"
  from m obtain c r2 where r1: "dropWhile is_upper s = c # r2"
    by (auto simp: match_issue_key_def Let_def split: if_splits list.splits)
  define ds where "ds = takeWhile is_digit r2"
  from m r1 have c: "c = CHR ''-''" and ne: "letters \<noteq> []" "ds \<noteq> []"
    and r: "r = dropWhile is_digit r2" and k: "k = letters @ CHR ''-'' # ds"
    and e: "at_word_end r"
    by (auto simp: match_issue_key_def Let_def letters_def ds_def split: if_splits)
  have "s = letters @ c # r2" using r1 takeWhile_dropWhile_id [of is_upper s]
    by (simp add: letters_def)
  moreover have "r2 = ds @ r" using takeWhile_dropWhile_id [of is_digit r2]
    by (simp add: ds_def r)
  moreover have "\<forall>c \<in> set letters. is_upper c" unfolding letters_def
    by (auto dest: set_takeWhileD)
  moreover have "\<forall>c \<in> set ds. is_digit c" unfolding ds_def
    by (auto dest: set_takeWhileD)
  ultimately show "\<exists>letters ds. s = letters @ CHR ''-'' # ds @ r \<and> k = letters @ CHR ''-'' # ds \<and>
        letters \<noteq> [] \<and> (\<forall>c \<in> set letters. is_upper c) \<and>
        ds \<noteq> [] \<and> (\<forall>c \<in> set ds. is_digit c) \<and> at_word_end r"
    using c ne k e by blast
next
  assume "\<exists>letters ds. s = letters @ CHR ''-'' # ds @ r \<and> k = letters @ CHR ''-'' # ds \<and>
        letters \<noteq> [] \<and> (\<forall>c \<in> set letters. is_upper c) \<and>
        ds \<noteq> [] \<and> (\<forall>c \<in> set ds. is_digit c) \<and> at_word_end r"
  then obtain letters ds where s: "s = letters @ CHR ''-'' # ds @ r"
    and k: "k = letters @ CHR ''-'' # ds" and ne: "letters \<noteq> []" "ds \<noteq> []"
    and u: "\<forall>c \<in> set letters. is_upper c" and d: "\<forall>c \<in> set ds. is_digit c"
    and e: "at_word_end r"
    by blast
  have 1: "takeWhile is_upper s = letters" "dropWhile is_upper s = CHR ''-'' # ds @ r"
    unfolding s using takeWhile_run [of letters is_upper "CHR ''-'' # ds @ r"] u hyphen_not_upper
    by simp_all
  have "r = [] \<or> \<not> is_digit (hd r)"
    using e by (cases r) (auto simp: at_word_end_def dest: digit_is_word)
  then have 2: "takeWhile is_digit (ds @ r) = ds" "dropWhile is_digit (ds @ r) = r"
    using takeWhile_run [of ds is_digit r] d by simp_all
  show "match_issue_key s = Some (k, r)"
    using ne e by (simp add: match_issue_key_def 1 2 k)
qed

text \<open>
  What the two searches for a URL find: the scheme somewhere in the text, and for a key the
  scheme, a run without white space, the key, and a word boundary.
\<close>

lemma startswith_iff: "startswith s p \<longleftrightarrow> (\<exists>r. s = p @ r)"
proof
  assume "startswith s p"
  then have "s = p @ drop (length p) s"
    using append_take_drop_id [of "length p" s] by (simp add: startswith_def)
  then show "\<exists>r. s = p @ r" ..
next
  assume "\<exists>r. s = p @ r"
  then show "startswith s p" by (auto simp: startswith_def)
qed

lemma scheme_rest_iff:
  "scheme_rest s = Some r \<longleftrightarrow> s = ''https://'' @ r \<or> s = ''http://'' @ r"
proof
  assume a: "scheme_rest s = Some r"
  show "s = ''https://'' @ r \<or> s = ''http://'' @ r"
  proof (cases "startswith s ''https://''")
    case True
    then obtain t where "s = ''https://'' @ t" unfolding startswith_iff ..
    with a True show ?thesis by (simp add: scheme_rest_def)
  next
    case False
    with a have h: "startswith s ''http://''" and r: "r = drop 7 s"
      by (auto simp: scheme_rest_def split: if_splits)
    from h obtain t where "s = ''http://'' @ t" unfolding startswith_iff ..
    with r show ?thesis by simp
  qed
next
  assume "s = ''https://'' @ r \<or> s = ''http://'' @ r"
  then show "scheme_rest s = Some r"
    by (auto simp: scheme_rest_def startswith_def)
qed

lemma literal_then_boundary_iff:
  "literal_then_boundary issue prev s \<longleftrightarrow>
     (\<exists>post. s = issue @ post \<and> word_boundary (last (prev # issue)) post)"
  by (auto simp: literal_then_boundary_def startswith_iff)

lemma nonspace_run_then_iff:
  "nonspace_run_then issue prev s \<longleftrightarrow>
     (\<exists>run post. s = run @ issue @ post \<and> (\<forall>c \<in> set run. \<not> is_space c) \<and>
        word_boundary (last (prev # run @ issue)) post)"
proof (induction s arbitrary: prev)
  case Nil
  show ?case by (auto simp: literal_then_boundary_iff)
next
  case (Cons c cs)
  show ?case (is "?L \<longleftrightarrow> ?R")
  proof
    assume ?L
    then consider (here) "literal_then_boundary issue prev (c # cs)"
      | (later) "\<not> is_space c" "nonspace_run_then issue c cs"
      by auto
    then show ?R
    proof cases
      case here
      then obtain post where "c # cs = issue @ post" "word_boundary (last (prev # issue)) post"
        unfolding literal_then_boundary_iff by blast
      then have "c # cs = [] @ issue @ post \<and> (\<forall>c \<in> set []. \<not> is_space c) \<and>
        word_boundary (last (prev # [] @ issue)) post" by simp
      then show ?thesis by blast
    next
      case later
      then obtain run post where r: "cs = run @ issue @ post" "\<forall>c \<in> set run. \<not> is_space c"
         "word_boundary (last (c # run @ issue)) post"
        unfolding Cons.IH by blast
      then have "c # cs = (c # run) @ issue @ post \<and> (\<forall>x \<in> set (c # run). \<not> is_space x) \<and>
        word_boundary (last (prev # (c # run) @ issue)) post"
        using later(1) by simp
      then show ?thesis by blast
    qed
  next
    assume ?R
    then obtain run post where r: "c # cs = run @ issue @ post" "\<forall>c \<in> set run. \<not> is_space c"
         "word_boundary (last (prev # run @ issue)) post"
      by blast
    show ?L
    proof (cases run)
      case Nil
      with r have "literal_then_boundary issue prev (c # cs)"
        unfolding literal_then_boundary_iff by auto
      then show ?thesis by simp
    next
      case (Cons d run')
      with r have "d = c" "cs = run' @ issue @ post" "\<not> is_space c"
        "\<forall>c \<in> set run'. \<not> is_space c" "word_boundary (last (c # run' @ issue)) post"
        by auto
      then have "\<not> is_space c \<and> nonspace_run_then issue c cs"
        unfolding Cons.IH by blast
      then show ?thesis by simp
    qed
  qed
qed

lemma issue_in_url_iff:
  "issue_in_url issue b \<longleftrightarrow>
     (\<exists>pre scheme run post.
        b = pre @ scheme @ run @ issue @ post \<and>
        (scheme = ''http://'' \<or> scheme = ''https://'') \<and>
        (\<forall>c \<in> set run. \<not> is_space c) \<and>
        word_boundary (last (CHR ''/'' # run @ issue)) post)"
proof (induction b)
  case Nil
  show ?case by auto
next
  case (Cons c cs)
  let ?here = "\<exists>scheme run post.
        c # cs = scheme @ run @ issue @ post \<and>
        (scheme = ''http://'' \<or> scheme = ''https://'') \<and>
        (\<forall>c \<in> set run. \<not> is_space c) \<and>
        word_boundary (last (CHR ''/'' # run @ issue)) post"
  have here: "(case scheme_rest (c # cs) of
         Some r \<Rightarrow> nonspace_run_then issue (CHR ''/'') r
       | None \<Rightarrow> False) \<longleftrightarrow> ?here" (is "?A \<longleftrightarrow> _")
  proof
    assume ?A
    then obtain r where s: "scheme_rest (c # cs) = Some r"
      and n: "nonspace_run_then issue (CHR ''/'') r"
      by (auto split: option.splits)
    from n obtain run post where "r = run @ issue @ post" "\<forall>c \<in> set run. \<not> is_space c"
        "word_boundary (last (CHR ''/'' # run @ issue)) post"
      unfolding nonspace_run_then_iff by blast
    with s [unfolded scheme_rest_iff] show ?here by blast
  next
    assume ?here
    then obtain scheme run post where h: "c # cs = scheme @ run @ issue @ post"
        "scheme = ''http://'' \<or> scheme = ''https://''"
        "\<forall>c \<in> set run. \<not> is_space c"
        "word_boundary (last (CHR ''/'' # run @ issue)) post"
      by blast
    then have "scheme_rest (c # cs) = Some (run @ issue @ post)"
      unfolding scheme_rest_iff by auto
    moreover have "nonspace_run_then issue (CHR ''/'') (run @ issue @ post)"
      unfolding nonspace_run_then_iff using h(3,4) by blast
    ultimately show ?A by simp
  qed
  show ?case (is "?L \<longleftrightarrow> ?R")
  proof
    assume ?L
    then consider ?here | "issue_in_url issue cs" using here by auto
    then show ?R
    proof cases
      case 1
      then obtain scheme run post where "c # cs = [] @ scheme @ run @ issue @ post \<and>
        (scheme = ''http://'' \<or> scheme = ''https://'') \<and>
        (\<forall>c \<in> set run. \<not> is_space c) \<and>
        word_boundary (last (CHR ''/'' # run @ issue)) post" by auto
      then show ?thesis by blast
    next
      case 2
      then obtain pre scheme run post where "cs = pre @ scheme @ run @ issue @ post"
        "scheme = ''http://'' \<or> scheme = ''https://''"
        "\<forall>c \<in> set run. \<not> is_space c"
        "word_boundary (last (CHR ''/'' # run @ issue)) post"
        unfolding Cons.IH by blast
      then have "c # cs = (c # pre) @ scheme @ run @ issue @ post \<and>
        (scheme = ''http://'' \<or> scheme = ''https://'') \<and>
        (\<forall>c \<in> set run. \<not> is_space c) \<and>
        word_boundary (last (CHR ''/'' # run @ issue)) post" by simp
      then show ?thesis by blast
    qed
  next
    assume ?R
    then obtain pre scheme run post where h: "c # cs = pre @ scheme @ run @ issue @ post"
        "scheme = ''http://'' \<or> scheme = ''https://''"
        "\<forall>c \<in> set run. \<not> is_space c"
        "word_boundary (last (CHR ''/'' # run @ issue)) post"
      by blast
    show ?L
    proof (cases pre)
      case Nil
      with h have "c # cs = scheme @ run @ issue @ post" by simp
      with h(2,3,4) have ?here by blast
      then show ?thesis using here by simp
    next
      case (Cons d pre')
      with h have "cs = pre' @ scheme @ run @ issue @ post" by simp
      with h(2,3,4) have "issue_in_url issue cs" unfolding Cons.IH by blast
      then show ?thesis by simp
    qed
  qed
qed

lemma contains_url_iff:
  "contains_url b \<longleftrightarrow> (\<exists>pre post. b = pre @ ''http://'' @ post \<or> b = pre @ ''https://'' @ post)"
proof (induction b)
  case Nil
  show ?case by simp
next
  case (Cons c cs)
  have here: "scheme_rest (c # cs) \<noteq> None \<longleftrightarrow>
     (\<exists>post. c # cs = ''http://'' @ post \<or> c # cs = ''https://'' @ post)"
    using scheme_rest_iff [of "c # cs"] by (cases "scheme_rest (c # cs)") auto
  show ?case (is "?L \<longleftrightarrow> ?R")
  proof
    assume ?L
    then consider "\<exists>post. c # cs = ''http://'' @ post \<or> c # cs = ''https://'' @ post"
      | "contains_url cs" using here by auto
    then show ?R
    proof cases
      case 1
      then obtain post where "c # cs = [] @ ''http://'' @ post \<or> c # cs = [] @ ''https://'' @ post"
        by auto
      then show ?thesis by blast
    next
      case 2
      then obtain pre post where "cs = pre @ ''http://'' @ post \<or> cs = pre @ ''https://'' @ post"
        unfolding Cons.IH by blast
      then have "c # cs = (c # pre) @ ''http://'' @ post \<or> c # cs = (c # pre) @ ''https://'' @ post"
        by simp
      then show ?thesis by blast
    qed
  next
    assume ?R
    then obtain pre post where h: "c # cs = pre @ ''http://'' @ post \<or> c # cs = pre @ ''https://'' @ post"
      by blast
    show ?L
    proof (cases pre)
      case Nil
      with h show ?thesis using here by auto
    next
      case (Cons d pre')
      with h have "cs = pre' @ ''http://'' @ post \<or> cs = pre' @ ''https://'' @ post" by auto
      then have "contains_url cs" unfolding Cons.IH by blast
      then show ?thesis by simp
    qed
  qed
qed

section \<open>Properties of the extractor\<close>

text \<open>
  The URL loop never drops a candidate that ends no URL, and adds none. The keys come out
  without duplicates and, for a cap of \<open>N\<close> keys, at most \<open>N\<close> of them; with the flag
  \<^verbatim>\<open>respond_to_urls\<close> on they are the first \<open>N\<close> distinct candidates in the order of
  their first occurrence.
\<close>

lemma remove_url_issues_keeps:
  "k \<in> set xs \<Longrightarrow> \<not> issue_in_url k b \<Longrightarrow> k \<in> set (remove_url_issues b xs i)"
proof (induction b xs i rule: remove_url_issues.induct)
  case (1 b xs i)
  show ?case
  proof (cases "i < length xs")
    case False
    then show ?thesis using "1.prems" by (simp add: remove_url_issues.simps)
  next
    case True
    show ?thesis
    proof (cases "issue_in_url (xs ! i) b")
      case u: True
      then have "k \<noteq> xs ! i" using "1.prems" by auto
      then have "k \<in> set (remove1 (xs ! i) xs)" using "1.prems" by simp
      then have "k \<in> set (remove_url_issues b (remove1 (xs ! i) xs) (Suc i))"
        using "1.IH"(1) [OF True refl u] "1.prems" by simp
      then show ?thesis using True u by (subst remove_url_issues.simps) simp
    next
      case u: False
      have "k \<in> set (remove_url_issues b xs (Suc i))"
        using "1.IH"(2) [OF True refl u] "1.prems" by simp
      then show ?thesis using True u by (subst remove_url_issues.simps) simp
    qed
  qed
qed

lemma remove_url_issues_subset:
  "set (remove_url_issues b xs i) \<subseteq> set xs"
proof (induction b xs i rule: remove_url_issues.induct)
  case (1 b xs i)
  show ?case
  proof (cases "i < length xs")
    case False
    then show ?thesis by (simp add: remove_url_issues.simps)
  next
    case True
    show ?thesis
    proof (cases "issue_in_url (xs ! i) b")
      case u: True
      have "set (remove_url_issues b (remove1 (xs ! i) xs) (Suc i)) \<subseteq> set (remove1 (xs ! i) xs)"
        using "1.IH"(1) [OF True refl u] .
      also have "\<dots> \<subseteq> set xs" by (rule set_remove1_subset)
      finally show ?thesis using True u by (subst remove_url_issues.simps) simp
    next
      case u: False
      have "set (remove_url_issues b xs (Suc i)) \<subseteq> set xs"
        using "1.IH"(2) [OF True refl u] .
      then show ?thesis using True u by (subst remove_url_issues.simps) simp
    qed
  qed
qed

lemma dict_fromkeys_distinct_set:
  "distinct d \<Longrightarrow> distinct (dict_fromkeys d xs) \<and> set (dict_fromkeys d xs) = set d \<union> set xs"
  by (induction xs arbitrary: d) auto

lemma dict_fromkeys_order:
  "dict_fromkeys d xs = d @ dict_fromkeys [] (filter (\<lambda>x. x \<notin> set d) xs)"
proof (induction "length xs" arbitrary: xs d rule: less_induct)
  case less
  show ?case
  proof (cases xs)
    case Nil
    then show ?thesis by simp
  next
    case (Cons x ys)
    show ?thesis
    proof (cases "x \<in> set d")
      case True
      then show ?thesis using less [of ys d] Cons by simp
    next
      case False
      let ?zs = "filter (\<lambda>y. y \<notin> set d) ys"
      have "dict_fromkeys d xs = dict_fromkeys (d @ [x]) ys" using False Cons by simp
      also have "\<dots> = (d @ [x]) @ dict_fromkeys [] (filter (\<lambda>y. y \<notin> set (d @ [x])) ys)"
        using less [of ys "d @ [x]"] Cons by simp
      finally have l: "dict_fromkeys d xs
          = d @ x # dict_fromkeys [] (filter (\<lambda>y. y \<notin> set (d @ [x])) ys)" by simp
      have "length ?zs < length xs" using Cons by (simp add: le_imp_less_Suc)
      then have "dict_fromkeys [x] ?zs
          = [x] @ dict_fromkeys [] (filter (\<lambda>y. y \<notin> set [x]) ?zs)"
        by (rule less)
      moreover have "filter (\<lambda>y. y \<notin> set [x]) ?zs = filter (\<lambda>y. y \<notin> set (d @ [x])) ys"
        by (simp add: conj_commute)
      moreover have "dict_fromkeys [] (filter (\<lambda>y. y \<notin> set d) xs) = dict_fromkeys [x] ?zs"
        using False Cons by simp
      ultimately show ?thesis using l by simp
    qed
  qed
qed

lemma dict_fromkeys_Cons:
  "dict_fromkeys [] (x # xs) = x # dict_fromkeys [] (filter (\<lambda>y. y \<noteq> x) xs)"
  using dict_fromkeys_order [of "[x]" xs] by simp

lemma extract_issues_distinct: "distinct (extract_issues cfg b)"
  by (simp add: extract_issues_def Let_def slice_to_def dict_fromkeys_distinct_set)

lemma extract_issues_length:
  "length (extract_issues (cfg\<lparr>max_issues_per_message := int N\<rparr>) b) \<le> N"
  by (simp add: extract_issues_def Let_def slice_to_def)

lemma extract_issues_respond_to_urls:
  "respond_to_urls cfg \<Longrightarrow> max_issues_per_message cfg = int N \<Longrightarrow>
   extract_issues cfg b = take N (dict_fromkeys [] (findall_issue_keys b))"
  by (simp add: extract_issues_def Let_def slice_to_def)

lemma extract_issues_retains:
  assumes "k \<in> set (findall_issue_keys b)" and "\<not> issue_in_url k b"
    and "int (length (findall_issue_keys b)) \<le> max_issues_per_message cfg"
  shows "k \<in> set (extract_issues cfg b)"
proof -
  define ms where "ms = (if \<not> respond_to_urls cfg \<and> contains_url b
               then remove_url_issues b (findall_issue_keys b) 0
               else findall_issue_keys b)"
  have k: "k \<in> set ms" using assms(1,2) by (simp add: ms_def remove_url_issues_keeps)
  have sub: "set ms \<subseteq> set (findall_issue_keys b)"
    by (simp add: ms_def remove_url_issues_subset)
  have d: "distinct (dict_fromkeys [] ms)" "set (dict_fromkeys [] ms) = set ms"
    using dict_fromkeys_distinct_set [of "[]" ms] by simp_all
  have "length (dict_fromkeys [] ms) = card (set ms)"
    using d distinct_card by metis
  also have "\<dots> \<le> card (set (findall_issue_keys b))"
    by (rule card_mono [OF _ sub]) simp
  also have "\<dots> \<le> length (findall_issue_keys b)" by (rule card_length)
  finally have "\<not> int (length (dict_fromkeys [] ms)) > max_issues_per_message cfg"
    using assms(3) by simp
  moreover have "ms \<noteq> []" "findall_issue_keys b \<noteq> []" using k assms(1) by auto
  ultimately have "extract_issues cfg b = dict_fromkeys [] ms"
    by (simp add: extract_issues_def Let_def ms_def [symmetric])
  then show ?thesis using d k by simp
qed

text \<open>The test for the marker: the first five characters are \<open>[off]\<close> in any case.\<close>

lemma lower_char_eq:
  "lower_char c = CHR ''['' \<longleftrightarrow> c = CHR ''[''"
  "lower_char c = CHR '']'' \<longleftrightarrow> c = CHR '']''"
  "lower_char c = CHR ''o'' \<longleftrightarrow> c = CHR ''o'' \<or> c = CHR ''O''"
  "lower_char c = CHR ''f'' \<longleftrightarrow> c = CHR ''f'' \<or> c = CHR ''F''"
  by (auto simp: lower_char_def latin1_capitals_def latin1_smalls_def split: if_splits)

lemma off_marker_iff:
  "startswith (lower b) ''[off]'' \<longleftrightarrow>
     (\<exists>c1 c2 c3 rest. b = CHR ''['' # c1 # c2 # c3 # CHR '']'' # rest \<and>
        c1 \<in> {CHR ''o'', CHR ''O''} \<and> c2 \<in> {CHR ''f'', CHR ''F''} \<and> c3 \<in> {CHR ''f'', CHR ''F''})"
proof (cases b)
  case Nil
  then show ?thesis by (simp add: startswith_def lower_def)
next
  case b1: (Cons a1 r1)
  show ?thesis
  proof (cases r1)
    case Nil
    with b1 show ?thesis by (simp add: startswith_def lower_def)
  next
    case b2: (Cons a2 r2)
    show ?thesis
    proof (cases r2)
      case Nil
      with b1 b2 show ?thesis by (simp add: startswith_def lower_def)
    next
      case b3: (Cons a3 r3)
      show ?thesis
      proof (cases r3)
        case Nil
        with b1 b2 b3 show ?thesis by (simp add: startswith_def lower_def)
      next
        case b4: (Cons a4 r4)
        show ?thesis
        proof (cases r4)
          case Nil
          with b1 b2 b3 b4 show ?thesis by (simp add: startswith_def lower_def)
        next
          case b5: (Cons a5 r5)
          show ?thesis
            unfolding b1 b2 b3 b4 b5
            by (auto simp: startswith_def lower_def lower_char_eq)
        qed
      qed
    qed
  qed
qed

section \<open>Properties of the cooldown ledger\<close>

lemma cooldown_fst:
  "fst (is_issue_on_cooldown now w recent K) \<longleftrightarrow> (\<exists>ts. recent K = Some ts \<and> now - ts \<le> w)"
  by (auto simp: is_issue_on_cooldown_def Let_def split: option.splits)

lemma cooldown_snd:
  "snd (is_issue_on_cooldown now w recent K) k = Some ts \<longleftrightarrow>
     (recent k = Some ts \<and> now - ts \<le> w) \<or>
     (k = K \<and> ts = now \<and> \<not> (\<exists>ts'. recent K = Some ts' \<and> now - ts' \<le> w))"
  by (auto simp: is_issue_on_cooldown_def Let_def split: option.splits)

text \<open>
  Claim C2, as the specification states it: a second mention of the key exactly one window
  after the first (\<open>t1 - t0 = w\<close>) proceeds. In the code it is suppressed: an entry is
  deleted only when its age is greater than the window. Here the window is 10 seconds, the
  ledger starts empty and the two calls are at the times 0 and 10.
\<close>

theorem cooldown_boundary_counterexample:
  "(0::int) < 10 \<and> (10::int) - 0 \<ge> 10 \<and>
   (fst (is_issue_on_cooldown 0 10 Map.empty ''FOO-1''),
    fst (is_issue_on_cooldown 10 10
           (snd (is_issue_on_cooldown 0 10 Map.empty ''FOO-1'')) ''FOO-1''))
    = (False, True)"
  by (simp add: is_issue_on_cooldown_def Let_def)

text \<open>
  Claim C2, amended: let the key \<open>K\<close> be absent from the ledger, or its entry older than the
  window at \<open>t0\<close>, and \<open>t0 < t1\<close>. The call at \<open>t0\<close> returns false and records \<open>t0\<close> for
  \<open>K\<close>; the call at \<open>t1\<close> returns true when \<open>t1 - t0 \<le> w\<close> and false when \<open>t1 - t0 > w\<close>.
  Each call deletes exactly the entries whose age is greater than \<open>w\<close>: of the other keys,
  the ledger after a call holds the entries it held before whose age is at most \<open>w\<close>.
\<close>

theorem cooldown_twice:
  assumes "t0 < t1" and "\<forall>ts. recent K = Some ts \<longrightarrow> t0 - ts > w"
  shows "case is_issue_on_cooldown t0 w recent K of (r0, L0) \<Rightarrow>
         case is_issue_on_cooldown t1 w L0 K of (r1, L1) \<Rightarrow>
           \<not> r0 \<and> L0 K = Some t0 \<and>
           (t1 - t0 \<le> w \<longrightarrow> r1) \<and> (t1 - t0 > w \<longrightarrow> \<not> r1) \<and>
           (\<forall>k ts. k \<noteq> K \<longrightarrow> (L0 k = Some ts \<longleftrightarrow> recent k = Some ts \<and> \<not> t0 - ts > w)) \<and>
           (\<forall>k ts. k \<noteq> K \<longrightarrow> (L1 k = Some ts \<longleftrightarrow> L0 k = Some ts \<and> \<not> t1 - ts > w))"
proof -
  obtain r0 L0 where c0: "is_issue_on_cooldown t0 w recent K = (r0, L0)" by force
  obtain r1 L1 where c1: "is_issue_on_cooldown t1 w L0 K = (r1, L1)" by force
  have r0: "\<not> r0" using cooldown_fst [of t0 w recent K] assms(2) c0 by auto
  have L0: "L0 k = Some ts \<longleftrightarrow> (recent k = Some ts \<and> t0 - ts \<le> w) \<or>
     (k = K \<and> ts = t0 \<and> \<not> (\<exists>ts'. recent K = Some ts' \<and> t0 - ts' \<le> w))" for k ts
    using cooldown_snd [of t0 w recent K k ts] c0 by simp
  have K0: "L0 K = Some t0" using L0 [of K t0] assms(2) by auto
  have r1: "r1 \<longleftrightarrow> t1 - t0 \<le> w" using cooldown_fst [of t1 w L0 K] c1 K0 by auto
  have L1: "L1 k = Some ts \<longleftrightarrow> (L0 k = Some ts \<and> t1 - ts \<le> w) \<or>
     (k = K \<and> ts = t1 \<and> \<not> (\<exists>ts'. L0 K = Some ts' \<and> t1 - ts' \<le> w))" for k ts
    using cooldown_snd [of t1 w L0 K k ts] c1 by simp
  have A: "\<forall>k ts. k \<noteq> K \<longrightarrow> (L0 k = Some ts \<longleftrightarrow> recent k = Some ts \<and> \<not> t0 - ts > w)"
    using L0 by auto
  have B: "\<forall>k ts. k \<noteq> K \<longrightarrow> (L1 k = Some ts \<longleftrightarrow> L0 k = Some ts \<and> \<not> t1 - ts > w)"
    using L1 by auto
  have C: "(t1 - t0 \<le> w \<longrightarrow> r1) \<and> (t1 - t0 > w \<longrightarrow> \<not> r1)"
    using r1 by auto
  show ?thesis
    using r0 K0 C A B by (simp add: c0 c1)
qed

theorem cooldown_twice_witness:
  "(0::int) < 5 \<and>
   fst (is_issue_on_cooldown 0 10 Map.empty ''FOO-1'') = False \<and>
   fst (is_issue_on_cooldown 5 10
          (snd (is_issue_on_cooldown 0 10 Map.empty ''FOO-1'')) ''FOO-1'')"
  using cooldown_twice [of 0 5 Map.empty "''FOO-1''" 10]
  by (simp add: split_def)

text \<open>
  Claim C9: after a call at the time \<open>now\<close> with a window of \<open>w\<close> seconds the ledger holds
  no entry whose age is greater than \<open>w\<close>; the call reports a cooldown only on an entry
  whose age is at most \<open>w\<close>; and the keys of the ledger are the keys recorded within the
  last \<open>w\<close> seconds, together with the key of the call.
\<close>

theorem ledger_holds_no_expired_entry:
  fixes w :: nat
  shows "case is_issue_on_cooldown now (int w) recent K of (on_cooldown, ledger) \<Rightarrow>
     (\<forall>k ts. ledger k = Some ts \<longrightarrow> \<not> now - ts > int w) \<and>
     (on_cooldown \<longrightarrow> (\<exists>ts. recent K = Some ts \<and> \<not> now - ts > int w)) \<and>
     dom ledger = {k. \<exists>ts. recent k = Some ts \<and> \<not> now - ts > int w} \<union> {K}"
proof -
  obtain r L where c: "is_issue_on_cooldown now (int w) recent K = (r, L)" by force
  have r: "r \<longleftrightarrow> (\<exists>ts. recent K = Some ts \<and> now - ts \<le> int w)"
    using cooldown_fst [of now "int w" recent K] c by simp
  have L: "L k = Some ts \<longleftrightarrow> (recent k = Some ts \<and> now - ts \<le> int w) \<or>
     (k = K \<and> ts = now \<and> \<not> (\<exists>ts'. recent K = Some ts' \<and> now - ts' \<le> int w))" for k ts
    using cooldown_snd [of now "int w" recent K k ts] c by simp
  have 1: "\<forall>k ts. L k = Some ts \<longrightarrow> \<not> now - ts > int w" using L by auto
  have 2: "r \<longrightarrow> (\<exists>ts. recent K = Some ts \<and> \<not> now - ts > int w)" using r by auto
  have 3: "dom L = {k. \<exists>ts. recent k = Some ts \<and> \<not> now - ts > int w} \<union> {K}"
    unfolding dom_def using L by (auto simp: not_less)
  show ?thesis using 1 2 3 by (simp add: c)
qed

theorem ledger_holds_no_expired_entry_witness:
  "snd (is_issue_on_cooldown 100 10 [''OLD-1'' \<mapsto> 80, ''NEW-2'' \<mapsto> 95] ''NEW-2'') ''NEW-2''
     = Some 95 \<and> \<not> (100::int) - 95 > 10 \<and>
   fst (is_issue_on_cooldown 100 10 [''OLD-1'' \<mapsto> 80, ''NEW-2'' \<mapsto> 95] ''NEW-2'') \<and>
   snd (is_issue_on_cooldown 100 10 [''OLD-1'' \<mapsto> 80, ''NEW-2'' \<mapsto> 95] ''NEW-2'') ''OLD-1''
     = None"
  using ledger_holds_no_expired_entry
          [of 100 10 "[''OLD-1'' \<mapsto> 80, ''NEW-2'' \<mapsto> 95]" "''NEW-2''"]
  by (simp add: is_issue_on_cooldown_def)

section \<open>Properties of the project directory\<close>

lemma those_eq_Some: "those es = Some keys \<longleftrightarrow> es = map Some keys"
  by (induction es arbitrary: keys) (auto split: option.splits)

lemma those_all_None: "those (map (\<lambda>x. None) xs) = (if xs = [] then Some [] else None)"
  by (cases xs) simp_all

lemma project_keys_Some_iff:
  "project_keys d = Some keys \<longleftrightarrow>
     d = Json_array (map Some keys) \<or> keys = [] \<and> (d = Json_object [] \<or> d = Json_string [])"
  by (cases d) (auto simp: project_keys_def those_eq_Some those_all_None)

lemma project_keys_None_iff:
  "project_keys d = None \<longleftrightarrow>
     d = Json_scalar \<or> (\<exists>es. d = Json_array es \<and> None \<in> set es)
     \<or> (\<exists>names. d = Json_object names \<and> names \<noteq> [])
     \<or> (\<exists>t. d = Json_string t \<and> t \<noteq> [])"
proof (cases d)
  case (Json_array es)
  have "those es = None \<longleftrightarrow> None \<in> set es"
    by (induction es) (auto split: option.splits)
  with Json_array show ?thesis by (simp add: project_keys_def)
qed (simp_all add: project_keys_def those_all_None)

lemma update_projects_internal_ok:
  assumes "get_projects W (projects_url W cfg) = Response 200 (Some d)"
    and "project_keys d = Some keys"
  shows "update_projects_internal W cfg s =
           (True, s\<lparr>requests := requests s @ [projects_url W cfg], projects := keys\<rparr>)"
  using assms by (simp add: update_projects_internal_def)

lemma update_projects_internal_failed:
  assumes "get_projects W (projects_url W cfg) = Transport_error
           \<or> (\<exists>status json. get_projects W (projects_url W cfg) = Response status json
                 \<and> (status \<noteq> 200 \<or> json = None
                      \<or> (\<exists>d. json = Some d \<and> project_keys d = None)))"
  shows "update_projects_internal W cfg s =
           (False, s\<lparr>requests := requests s @ [projects_url W cfg]\<rparr>)"
  using assms by (auto simp: update_projects_internal_def Let_def)

text \<open>
  Claim C5, as the specification states it: a refresh that meets a malformed body leaves
  the cached projects as they are and reports failure. The tracker here answers the
  project request with status 200 and the empty object \<^verbatim>\<open>{}\<close>, which is no list of
  projects; the walk over it finds no element and raises nothing, so the refresh succeeds,
  the cached project OLD is gone and the administrator reads of 0 projects.
\<close>

theorem refresh_empty_object_counterexample:
  "get_projects empty_object_world (projects_url empty_object_world example_config)
     = Response 200 (Some (Json_object [])) \<and>
   fst (update_projects_internal empty_object_world example_config
          (example_plugin\<lparr>projects := [''OLD'']\<rparr>)) \<and>
   projects (update_projects empty_object_world example_config
               (example_plugin\<lparr>projects := [''OLD'']\<rparr>)) = [] \<and>
   replies (update_projects empty_object_world example_config
              (example_plugin\<lparr>projects := [''OLD'']\<rparr>))
     = [''Successfully updated projects list. Found 0 projects.'']"
  by (simp add: empty_object_world_def update_projects_def update_projects_internal_def
                project_keys_def example_plugin_def str_nat.simps)

text \<open>
  Claim C5, amended. The refresh succeeds when the tracker answers the project request
  with status 200 and a body that is read and walked without an exception: a list in which
  every element has a key, or the empty object or the empty string, in which the walk finds
  no element. The project list then becomes exactly the keys found (whatever it held
  before) and the administrator is told their number. The refresh fails on an exception of
  the transport, on another status, and on a body on which reading, walking or the
  subscript raises: one that is no JSON, a number, a boolean or null, a list with an
  element without a key, an object with members, a string with characters. The project list
  is then the one held before, and the administrator is told of the failure. Every answer
  of the tracker is of one of the two kinds.
\<close>

theorem refresh_replaces_or_keeps:
  "(\<forall>d keys.
      get_projects W (projects_url W cfg) = Response 200 (Some d) \<and>
      (d = Json_array (map Some keys)
       \<or> keys = [] \<and> (d = Json_object [] \<or> d = Json_string [])) \<longrightarrow>
      fst (update_projects_internal W cfg s) \<and>
      projects (update_projects W cfg s) = keys \<and>
      replies (update_projects W cfg s) = replies s @
        [''Successfully updated projects list. Found '' @ str_nat (length keys)
         @ '' projects.'']) \<and>
   (get_projects W (projects_url W cfg) = Transport_error
    \<or> (\<exists>status json.
          get_projects W (projects_url W cfg) = Response status json \<and>
          (status \<noteq> 200 \<or> json = None \<or> json = Some Json_scalar
           \<or> (\<exists>es. json = Some (Json_array es) \<and> None \<in> set es)
           \<or> (\<exists>names. json = Some (Json_object names) \<and> names \<noteq> [])
           \<or> (\<exists>t. json = Some (Json_string t) \<and> t \<noteq> []))) \<longrightarrow>
      \<not> fst (update_projects_internal W cfg s) \<and>
      projects (update_projects W cfg s) = projects s \<and>
      replies (update_projects W cfg s) = replies s @
        [''Failed to update projects list. Check logs for details.'']) \<and>
   ((\<exists>d keys.
      get_projects W (projects_url W cfg) = Response 200 (Some d) \<and>
      (d = Json_array (map Some keys)
       \<or> keys = [] \<and> (d = Json_object [] \<or> d = Json_string [])))
    \<or> get_projects W (projects_url W cfg) = Transport_error
    \<or> (\<exists>status json.
          get_projects W (projects_url W cfg) = Response status json \<and>
          (status \<noteq> 200 \<or> json = None \<or> json = Some Json_scalar
           \<or> (\<exists>es. json = Some (Json_array es) \<and> None \<in> set es)
           \<or> (\<exists>names. json = Some (Json_object names) \<and> names \<noteq> [])
           \<or> (\<exists>t. json = Some (Json_string t) \<and> t \<noteq> []))))"
proof (intro conjI allI impI)
  fix d keys
  assume a: "get_projects W (projects_url W cfg) = Response 200 (Some d) \<and>
      (d = Json_array (map Some keys)
       \<or> keys = [] \<and> (d = Json_object [] \<or> d = Json_string []))"
  then have "project_keys d = Some keys" by (simp add: project_keys_Some_iff)
  with a have ok: "update_projects_internal W cfg s =
           (True, s\<lparr>requests := requests s @ [projects_url W cfg], projects := keys\<rparr>)"
    by (simp add: update_projects_internal_ok)
  show "fst (update_projects_internal W cfg s)" by (simp add: ok)
  show "projects (update_projects W cfg s) = keys" by (simp add: update_projects_def ok)
  show "replies (update_projects W cfg s) = replies s @
        [''Successfully updated projects list. Found '' @ str_nat (length keys)
         @ '' projects.'']"
    by (simp add: update_projects_def ok)
next
  assume a: "get_projects W (projects_url W cfg) = Transport_error
    \<or> (\<exists>status json.
          get_projects W (projects_url W cfg) = Response status json \<and>
          (status \<noteq> 200 \<or> json = None \<or> json = Some Json_scalar
           \<or> (\<exists>es. json = Some (Json_array es) \<and> None \<in> set es)
           \<or> (\<exists>names. json = Some (Json_object names) \<and> names \<noteq> [])
           \<or> (\<exists>t. json = Some (Json_string t) \<and> t \<noteq> [])))"
  have "get_projects W (projects_url W cfg) = Transport_error
           \<or> (\<exists>status json. get_projects W (projects_url W cfg) = Response status json
                 \<and> (status \<noteq> 200 \<or> json = None
                      \<or> (\<exists>d. json = Some d \<and> project_keys d = None)))"
    using a unfolding project_keys_None_iff by blast
  then have ko: "update_projects_internal W cfg s =
           (False, s\<lparr>requests := requests s @ [projects_url W cfg]\<rparr>)"
    by (rule update_projects_internal_failed)
  show "\<not> fst (update_projects_internal W cfg s)" by (simp add: ko)
  show "projects (update_projects W cfg s) = projects s" by (simp add: update_projects_def ko)
  show "replies (update_projects W cfg s) = replies s @
        [''Failed to update projects list. Check logs for details.'']"
    by (simp add: update_projects_def ko)
next
  show "(\<exists>d keys.
      get_projects W (projects_url W cfg) = Response 200 (Some d) \<and>
      (d = Json_array (map Some keys)
       \<or> keys = [] \<and> (d = Json_object [] \<or> d = Json_string [])))
    \<or> get_projects W (projects_url W cfg) = Transport_error
    \<or> (\<exists>status json.
          get_projects W (projects_url W cfg) = Response status json \<and>
          (status \<noteq> 200 \<or> json = None \<or> json = Some Json_scalar
           \<or> (\<exists>es. json = Some (Json_array es) \<and> None \<in> set es)
           \<or> (\<exists>names. json = Some (Json_object names) \<and> names \<noteq> [])
           \<or> (\<exists>t. json = Some (Json_string t) \<and> t \<noteq> [])))"
  proof (cases "get_projects W (projects_url W cfg)")
    case Transport_error
    then show ?thesis by simp
  next
    case (Response status json)
    show ?thesis
    proof (cases "status = 200")
      case False
      with Response show ?thesis by simp
    next
      case True
      show ?thesis
      proof (cases json)
        case None
        with Response show ?thesis by simp
      next
        case (Some d)
        show ?thesis
        proof (cases "project_keys d")
          case None
          then show ?thesis
            unfolding project_keys_None_iff using Response Some by auto
        next
          case (Some keys)
          then have "d = Json_array (map Some keys)
              \<or> keys = [] \<and> (d = Json_object [] \<or> d = Json_string [])"
            by (simp add: project_keys_Some_iff)
          with Response True \<open>json = Some d\<close> show ?thesis by blast
        qed
      qed
    qed
  qed
qed

theorem refresh_replaces_or_keeps_witness:
  "projects (update_projects example_world example_config (example_plugin\<lparr>projects := [''OLD'']\<rparr>))
     = [''JIRA'', ''ABC''] \<and>
   replies (update_projects example_world example_config (example_plugin\<lparr>projects := [''OLD'']\<rparr>))
     = [''Successfully updated projects list. Found 2 projects.''] \<and>
   projects (update_projects (example_world\<lparr>get_projects := (\<lambda>url. Response 503 None)\<rparr>)
               example_config (example_plugin\<lparr>projects := [''OLD'']\<rparr>))
     = [''OLD''] \<and>
   projects (update_projects
               (example_world\<lparr>get_projects :=
                  (\<lambda>url. Response 200 (Some (Json_array [Some ''JIRA'', None])))\<rparr>)
               example_config (example_plugin\<lparr>projects := [''OLD'']\<rparr>))
     = [''OLD'']"
proof -
  let ?s = "example_plugin\<lparr>projects := [''OLD'']\<rparr>"
  let ?W = "example_world\<lparr>get_projects := (\<lambda>url. Response 503 None)\<rparr>"
  let ?V = "example_world\<lparr>get_projects :=
                  (\<lambda>url. Response 200 (Some (Json_array [Some ''JIRA'', None])))\<rparr>"
  have ok: "get_projects example_world (projects_url example_world example_config)
              = Response 200 (Some (Json_array (map Some [''JIRA'', ''ABC''])))"
    by (simp add: example_world_def)
  have ko: "\<exists>status json.
          get_projects ?W (projects_url ?W example_config) = Response status json \<and>
          (status \<noteq> 200 \<or> json = None \<or> json = Some Json_scalar
           \<or> (\<exists>es. json = Some (Json_array es) \<and> None \<in> set es)
           \<or> (\<exists>names. json = Some (Json_object names) \<and> names \<noteq> [])
           \<or> (\<exists>t. json = Some (Json_string t) \<and> t \<noteq> []))"
    by simp
  have kv: "\<exists>status json.
          get_projects ?V (projects_url ?V example_config) = Response status json \<and>
          (status \<noteq> 200 \<or> json = None \<or> json = Some Json_scalar
           \<or> (\<exists>es. json = Some (Json_array es) \<and> None \<in> set es)
           \<or> (\<exists>names. json = Some (Json_object names) \<and> names \<noteq> [])
           \<or> (\<exists>t. json = Some (Json_string t) \<and> t \<noteq> []))"
    by simp
  have n: "str_nat (length [''JIRA'', ''ABC'']) = ''2''"
    by (simp add: str_nat.simps)
  from refresh_replaces_or_keeps [of example_world example_config ?s] ok
  have 1: "projects (update_projects example_world example_config ?s) = [''JIRA'', ''ABC'']
     \<and> replies (update_projects example_world example_config ?s) = replies ?s @
        [''Successfully updated projects list. Found ''
         @ str_nat (length [''JIRA'', ''ABC'']) @ '' projects.'']"
    by blast
  from refresh_replaces_or_keeps [of ?W example_config ?s] ko
  have 2: "projects (update_projects ?W example_config ?s) = projects ?s" by blast
  from refresh_replaces_or_keeps [of ?V example_config ?s] kv
  have 3: "projects (update_projects ?V example_config ?s) = projects ?s" by blast
  show ?thesis using 1 2 3 unfolding n by (simp add: example_plugin_def)
qed

section \<open>Properties of the sender filter\<close>

text \<open>
  Claim C7: a message that is not plain text, or whose sender's name (the identity up to
  the first colon, without leading at-signs) is one of the trimmed entries of the ignored
  list, or whose sender is the bot itself, leaves the plugin as it was: the ledger is not
  touched, nothing is requested from the tracker and nothing is sent.
\<close>

theorem rejected_message_does_nothing:
  assumes "msgtype evt \<noteq> Text
           \<or> username_of (sender evt) \<in> set (map strip (ignored_users cfg))
           \<or> sender evt = mxid W"
  shows "on_message W cfg evt s = s"
  using assms by (auto simp: on_message_def is_ignored_user_def)

theorem rejected_message_does_nothing_witness:
  "username_of ''@bob:example.org'' \<in> set (map strip (ignored_users example_config)) \<and>
   on_message example_world example_config
     \<lparr>msgtype = Text, sender = ''@bob:example.org'', body = ''see JIRA-42''\<rparr> example_plugin
   = example_plugin"
proof -
  have u: "username_of ''@bob:example.org'' \<in> set (map strip (ignored_users example_config))"
    by (simp add: username_of_def strip_def is_space_def example_config_def)
  show ?thesis
    using u rejected_message_does_nothing
      [of "\<lparr>msgtype = Text, sender = ''@bob:example.org'', body = ''see JIRA-42''\<rparr>"
          example_config example_world example_plugin]
    by simp
qed

section \<open>Properties of the message pipeline\<close>

lemma fetch_issue_info_eq:
  "fetch_issue_info W cfg k s =
     (issue_line W cfg k, s\<lparr>requests := requests s @ [issue_url W cfg k]\<rparr>)"
  by (simp add: fetch_issue_info_def issue_line_def Let_def
           split: http_result.splits issue_body.splits)

lemma issue_line_nonempty: "issue_line W cfg k \<noteq> Some []"
  by (simp add: issue_line_def split: http_result.splits issue_body.splits)

lemma process_issues_eq:
  "process_issues W cfg ks (acc, s) =
     (let a = admit (clock W) cfg (projects s) ks (recent_issues s, ticks s) in
      (acc @ List.map_filter (issue_line W cfg) (fst a),
       s\<lparr>recent_issues := fst (snd a), ticks := snd (snd a),
         requests := requests s @ map (issue_url W cfg) (fst a)\<rparr>))"
proof (induction ks arbitrary: acc s)
  case Nil
  show ?case by simp
next
  case (Cons k ks)
  show ?case
  proof (cases "project_key_of k \<in> set (projects s)")
    case False
    then show ?thesis using Cons.IH [of acc s] by simp
  next
    case known: True
    define c where "c = is_issue_on_cooldown (clock W (ticks s)) (issue_cooldown cfg) (recent_issues s) k"
    define s1 where "s1 = s\<lparr>recent_issues := snd c, ticks := Suc (ticks s)\<rparr>"
    define a where "a = admit (clock W) cfg (projects s) ks (snd c, Suc (ticks s))"
    show ?thesis
    proof (cases "fst c")
      case True
      have "process_issues W cfg (k # ks) (acc, s) = process_issues W cfg ks (acc, s1)"
        using known True by (simp add: c_def s1_def split_def Let_def)
      moreover have "admit (clock W) cfg (projects s) (k # ks) (recent_issues s, ticks s) = a"
        using known True by (simp add: c_def a_def Let_def)
      ultimately show ?thesis using Cons.IH [of acc s1]
        by (simp add: s1_def a_def Let_def)
    next
      case False
      define s2 where "s2 = s1\<lparr>requests := requests s1 @ [issue_url W cfg k]\<rparr>"
      have step: "process_issues W cfg (k # ks) (acc, s) =
            process_issues W cfg ks
              (acc @ (case issue_line W cfg k of None \<Rightarrow> [] | Some l \<Rightarrow> [l]), s2)"
        using known False issue_line_nonempty [of W cfg k]
        by (simp add: c_def s1_def s2_def split_def Let_def fetch_issue_info_eq
                 split: option.splits)
      have adm: "admit (clock W) cfg (projects s) (k # ks) (recent_issues s, ticks s) =
            (k # fst a, snd a)"
        using known False by (simp add: c_def a_def Let_def)
      have a2: "admit (clock W) cfg (projects s2) ks (recent_issues s2, ticks s2) = a"
        by (simp add: s2_def s1_def a_def)
      show ?thesis
        unfolding step adm Cons.IH [of _ s2] a2
        by (simp add: s2_def s1_def Let_def split: option.splits)
    qed
  qed
qed

lemma process_message_replies:
  "replies (process_message_for_issues W cfg evt s) =
     replies (respond_with (body evt)
       (List.map_filter (issue_line W cfg)
          (fst (admit (clock W) cfg (projects s) (extract_issues cfg (body evt))
                  (recent_issues s, ticks s))))
       s)"
proof (cases "extract_issues cfg (body evt) = []")
  case True
  then show ?thesis
    by (simp add: process_message_for_issues_def respond_with_def)
next
  case False
  then show ?thesis
    by (simp add: process_message_for_issues_def process_issues_eq [where acc = "[]", simplified]
                  Let_def respond_with_def)
qed

lemma map_filter_failed:
  "f k = None \<Longrightarrow> List.map_filter f (filter (\<lambda>x. x \<noteq> k) ks) = List.map_filter f ks"
  by (induction ks) (auto simp: List.map_filter_simps split: option.splits)

lemma process_message_requests:
  "requests (process_message_for_issues W cfg evt s) =
     requests s @ map (issue_url W cfg)
       (fst (admit (clock W) cfg (projects s) (extract_issues cfg (body evt))
               (recent_issues s, ticks s)))"
proof (cases "extract_issues cfg (body evt) = []")
  case True
  then show ?thesis
    by (simp add: process_message_for_issues_def)
next
  case False
  then show ?thesis
    by (simp add: process_message_for_issues_def process_issues_eq [where acc = "[]", simplified]
                  Let_def respond_with_def)
qed

text \<open>
  Claim C4: let the lookup of the key \<open>k\<close> end in an exception of the transport, in a
  status other than 200, or in a body without the summary. Then the lookup gives no line,
  every key for which a lookup is due is still requested from the tracker, and the reply to
  the message is the one built from the lines of the other keys alone (no reply when there
  is none): nothing about \<open>k\<close> and no error text reaches the conversation.
\<close>

theorem failed_lookup_is_skipped:
  assumes "get_issue W (issue_url W cfg k) = Transport_error
           \<or> (\<exists>status data. get_issue W (issue_url W cfg k) = Response status data
                 \<and> (status \<noteq> 200 \<or> data = No_summary))"
  shows "fst (fetch_issue_info W cfg k s') = None \<and>
         requests (process_message_for_issues W cfg evt s) =
           requests s @ map (issue_url W cfg)
             (fst (admit (clock W) cfg (projects s) (extract_issues cfg (body evt))
                     (recent_issues s, ticks s))) \<and>
         replies (process_message_for_issues W cfg evt s) =
           replies (respond_with (body evt)
             (List.map_filter (issue_line W cfg)
                (filter (\<lambda>k'. k' \<noteq> k)
                   (fst (admit (clock W) cfg (projects s) (extract_issues cfg (body evt))
                           (recent_issues s, ticks s)))))
             s)"
proof -
  have none: "issue_line W cfg k = None"
    using assms by (auto simp: issue_line_def split: issue_body.splits)
  then have 1: "fst (fetch_issue_info W cfg k s') = None"
    by (simp add: fetch_issue_info_eq)
  show ?thesis
    using 1 by (simp add: process_message_replies process_message_requests map_filter_failed [of "issue_line W cfg" k, OF none])
qed

lemma map_filter_resolved:
  "List.map_filter (issue_line W cfg) ks =
     map (\<lambda>(key, title).
            if include_url cfg
            then ''['' @ key @ '']('' @ urljoin W (jira_url cfg) (''browse/'' @ key)
                 @ ''): '' @ title
            else key @ '': '' @ title)
         (resolved_issues W cfg ks)"
  unfolding resolved_issues_def
  by (induction ks)
     (auto simp: List.map_filter_simps issue_line_def
           split: http_result.splits issue_body.splits)

text \<open>
  Claim C6: when the message has resolved issues (the keys for which a lookup is due and
  the tracker answers 200 with a summary), the reply is one text: the lines of the resolved
  issues in their order, joined by line feeds. A line is \<open>key: title\<close>, or
  \<open>[key](browse_url): title\<close> with the base URL joined with \<open>browse/key\<close> when links are
  configured; each line is prefixed with \<open>[off] \<close> when the message body, in lower case,
  starts with \<open>[off]\<close>.
\<close>

theorem reply_format:
  assumes "resolved =
             resolved_issues W cfg
               (fst (admit (clock W) cfg (projects s) (extract_issues cfg (body evt))
                       (recent_issues s, ticks s)))"
    and "resolved \<noteq> []"
  shows "replies (process_message_for_issues W cfg evt s) = replies s @
           [str_join [CHR 0x0A]
              (map (\<lambda>(key, title).
                      (if startswith (lower (body evt)) ''[off]'' then ''[off] '' else [])
                      @ (if include_url cfg
                         then ''['' @ key @ '']('' @ urljoin W (jira_url cfg) (''browse/'' @ key)
                              @ ''): '' @ title
                         else key @ '': '' @ title))
                   resolved)]"
  using assms(2) unfolding assms(1) process_message_replies map_filter_resolved
  by (simp add: respond_with_def split_def comp_def cong: map_cong)

lemma process_issues_unknown:
  "\<forall>k \<in> set ks. project_key_of k \<notin> set (projects s) \<Longrightarrow>
   process_issues W cfg ks (acc, s) = (acc, s)"
  by (induction ks) simp_all

text \<open>
  Claim C8: when no candidate of the message has its project in the directory, the plugin
  is left as it was: no lookup, no reply, no change of the ledger. That holds in particular
  after a start whose refresh failed: the directory is then empty, and every message leaves
  the plugin as it was.
\<close>

theorem unknown_projects_give_no_reply:
  "((\<forall>k \<in> set (extract_issues cfg (body evt)). project_key_of k \<notin> set (projects s)) \<longrightarrow>
      process_message_for_issues W cfg evt s = s \<and> on_message W cfg evt s = s) \<and>
   (projects s0 = [] \<and> \<not> fst (update_projects_internal W0 cfg0 s0) \<longrightarrow>
      projects (load_projects W0 cfg0 s0) = [] \<and>
      on_message W cfg evt (load_projects W0 cfg0 s0) = load_projects W0 cfg0 s0)"
proof (intro conjI impI)
  assume u: "\<forall>k \<in> set (extract_issues cfg (body evt)). project_key_of k \<notin> set (projects s)"
  show p: "process_message_for_issues W cfg evt s = s"
    by (simp add: process_message_for_issues_def Let_def process_issues_unknown [OF u]
                  respond_with_def)
  show "on_message W cfg evt s = s"
    by (simp add: on_message_def p)
next
  assume a: "projects s0 = [] \<and> \<not> fst (update_projects_internal W0 cfg0 s0)"
  have "projects (snd (update_projects_internal W0 cfg0 s0)) = projects s0"
    using a by (auto simp: update_projects_internal_def Let_def
                     split: http_result.splits option.splits if_splits)
  with a show e: "projects (load_projects W0 cfg0 s0) = []"
    by (simp add: load_projects_def)
  have "\<forall>k \<in> set (extract_issues cfg (body evt)).
          project_key_of k \<notin> set (projects (load_projects W0 cfg0 s0))"
    by (simp add: e)
  then have "process_message_for_issues W cfg evt (load_projects W0 cfg0 s0)
               = load_projects W0 cfg0 s0"
    by (simp add: process_message_for_issues_def Let_def process_issues_unknown
                  respond_with_def)
  then show "on_message W cfg evt (load_projects W0 cfg0 s0) = load_projects W0 cfg0 s0"
    by (simp add: on_message_def)
qed


section \<open>The theorems on the sample installation\<close>

theorem failed_lookup_is_skipped_witness:
  "get_issue example_world (issue_url example_world example_config ''JIRA-7'')
     = Response 404 No_summary \<and>
   requests (process_message_for_issues example_world example_config
              \<lparr>msgtype = Text, sender = ''@al:example.org'', body = ''JIRA-7 JIRA-42''\<rparr>
              example_plugin)
     = [''https://tracker/rest/api/2/issue/JIRA-7'',
        ''https://tracker/rest/api/2/issue/JIRA-42''] \<and>
   replies (process_message_for_issues example_world example_config
              \<lparr>msgtype = Text, sender = ''@al:example.org'', body = ''JIRA-7 JIRA-42''\<rparr>
              example_plugin)
     = [''JIRA-42: Fix login bug'']"
proof -
  let ?evt = "\<lparr>msgtype = Text, sender = ''@al:example.org'', body = ''JIRA-7 JIRA-42''\<rparr>"
  have h: "get_issue example_world (issue_url example_world example_config ''JIRA-7'')
             = Response 404 No_summary"
    by code_simp
  have a: "fst (admit (clock example_world) example_config (projects example_plugin)
                 (extract_issues example_config (body ?evt))
                 (recent_issues example_plugin, ticks example_plugin))
           = [''JIRA-7'', ''JIRA-42'']"
    by code_simp
  have r: "map (issue_url example_world example_config) [''JIRA-7'', ''JIRA-42'']
     = [''https://tracker/rest/api/2/issue/JIRA-7'',
        ''https://tracker/rest/api/2/issue/JIRA-42'']"
    by code_simp
  have l: "replies (respond_with (body ?evt)
             (List.map_filter (issue_line example_world example_config)
                (filter (\<lambda>k'. k' \<noteq> ''JIRA-7'') [''JIRA-7'', ''JIRA-42'']))
             example_plugin) = [''JIRA-42: Fix login bug'']"
    by code_simp
  have e: "requests example_plugin = []" by (simp add: example_plugin_def)
  from failed_lookup_is_skipped
         [of example_world example_config "''JIRA-7''" example_plugin ?evt example_plugin] h
  show ?thesis unfolding a r l e by simp
qed

theorem reply_format_witness:
  "[(''ABC-1'', ''T'')] \<noteq> [] \<and>
   replies (process_message_for_issues example_world example_config
              \<lparr>msgtype = Text, sender = ''@al:example.org'', body = ''[Off] ABC-1 ABC-1''\<rparr>
              example_plugin)
     = [''[off] ABC-1: T''] \<and>
   replies (process_message_for_issues example_world (example_config\<lparr>include_url := True\<rparr>)
              \<lparr>msgtype = Text, sender = ''@al:example.org'', body = ''JIRA-42, ABC-1?''\<rparr>
              example_plugin)
     = [''[JIRA-42](https://tracker/browse/JIRA-42): Fix login bug'' @ [CHR 0x0A] @
        ''[ABC-1](https://tracker/browse/ABC-1): T'']"
proof -
  let ?e1 = "\<lparr>msgtype = Text, sender = ''@al:example.org'', body = ''[Off] ABC-1 ABC-1''\<rparr>"
  let ?e2 = "\<lparr>msgtype = Text, sender = ''@al:example.org'', body = ''JIRA-42, ABC-1?''\<rparr>"
  let ?c2 = "example_config\<lparr>include_url := True\<rparr>"
  have r1: "[(''ABC-1'', ''T'')] =
          resolved_issues example_world example_config
            (fst (admit (clock example_world) example_config (projects example_plugin)
                    (extract_issues example_config (body ?e1))
                    (recent_issues example_plugin, ticks example_plugin)))"
    by code_simp
  have r2: "[(''JIRA-42'', ''Fix login bug''), (''ABC-1'', ''T'')] =
          resolved_issues example_world ?c2
            (fst (admit (clock example_world) ?c2 (projects example_plugin)
                    (extract_issues ?c2 (body ?e2))
                    (recent_issues example_plugin, ticks example_plugin)))"
    by code_simp
  have o1: "startswith (lower (body ?e1)) ''[off]''" by code_simp
  have o2: "\<not> startswith (lower (body ?e2)) ''[off]''" by code_simp
  have u: "urljoin example_world (jira_url ?c2) url = ''https://tracker/'' @ url" for url
    by (simp add: example_world_def example_config_def)
  have i: "\<not> include_url example_config" "include_url ?c2" "replies example_plugin = []"
    by (simp_all add: example_config_def example_plugin_def)
  from reply_format [OF r1] have 1:
    "replies (process_message_for_issues example_world example_config ?e1 example_plugin)
       = [''[off] ABC-1: T'']"
    using o1 i by simp
  from reply_format [OF r2] have 2:
    "replies (process_message_for_issues example_world ?c2 ?e2 example_plugin)
     = [''[JIRA-42](https://tracker/browse/JIRA-42): Fix login bug'' @ [CHR 0x0A] @
        ''[ABC-1](https://tracker/browse/ABC-1): T'']"
    using o2 i u by simp
  show ?thesis using 1 2 by simp
qed

theorem unknown_projects_give_no_reply_witness:
  "extract_issues example_config ''what about ZZZ-9?'' = [''ZZZ-9''] \<and>
   project_key_of ''ZZZ-9'' \<notin> set (projects example_plugin) \<and>
   on_message example_world example_config
     \<lparr>msgtype = Text, sender = ''@al:example.org'', body = ''what about ZZZ-9?''\<rparr>
     example_plugin = example_plugin \<and>
   projects (example_plugin\<lparr>projects := []\<rparr>) = [] \<and>
   \<not> fst (update_projects_internal (example_world\<lparr>get_projects := (\<lambda>url. Transport_error)\<rparr>)
           example_config (example_plugin\<lparr>projects := []\<rparr>)) \<and>
   replies (on_message example_world example_config
     \<lparr>msgtype = Text, sender = ''@al:example.org'', body = ''see JIRA-42''\<rparr>
     (load_projects (example_world\<lparr>get_projects := (\<lambda>url. Transport_error)\<rparr>)
        example_config (example_plugin\<lparr>projects := []\<rparr>))) = []"
proof -
  let ?e1 = "\<lparr>msgtype = Text, sender = ''@al:example.org'', body = ''what about ZZZ-9?''\<rparr>"
  let ?e2 = "\<lparr>msgtype = Text, sender = ''@al:example.org'', body = ''see JIRA-42''\<rparr>"
  let ?W0 = "example_world\<lparr>get_projects := (\<lambda>url. Transport_error)\<rparr>"
  let ?s0 = "example_plugin\<lparr>projects := []\<rparr>"
  have x: "extract_issues example_config ''what about ZZZ-9?'' = [''ZZZ-9'']" by code_simp
  have p: "project_key_of ''ZZZ-9'' \<notin> set (projects example_plugin)" by code_simp
  have u: "\<forall>k \<in> set (extract_issues example_config (body ?e1)).
       project_key_of k \<notin> set (projects example_plugin)"
    using x p by simp
  have f: "projects ?s0 = [] \<and> \<not> fst (update_projects_internal ?W0 example_config ?s0)"
    by (simp add: update_projects_internal_def)
  have l: "replies (load_projects ?W0 example_config ?s0) = []"
    by (simp add: load_projects_def update_projects_internal_def example_plugin_def)
  from unknown_projects_give_no_reply
         [of example_config ?e1 example_plugin example_world ?s0 ?W0 example_config] u
  have 1: "on_message example_world example_config ?e1 example_plugin = example_plugin"
    by blast
  from unknown_projects_give_no_reply
         [of example_config ?e2 example_plugin example_world ?s0 ?W0 example_config] f
  have 2: "on_message example_world example_config ?e2 (load_projects ?W0 example_config ?s0)
             = load_projects ?W0 example_config ?s0"
    by blast
  show ?thesis using x p 1 f l unfolding 2 by simp
qed


section \<open>The URL filter on two messages\<close>

lemma url_filter_example:
  "extract_issues example_config ''see https://x/FOO-1 and BAR-2'' = [''BAR-2'']"
  by code_simp

text \<open>
  Claim C1 says that with the flag off every candidate that ends a URL is dropped. In the
  message below both keys end a URL, and the candidates are FOO-1 and BAR-2; the loop
  removes FOO-1 while it walks the list, the index then points past BAR-2, and BAR-2 is
  kept.
\<close>

theorem url_filter_skips_candidate:
  "findall_issue_keys ''https://x/FOO-1 https://x/BAR-2'' = [''FOO-1'', ''BAR-2''] \<and>
   issue_in_url ''FOO-1'' ''https://x/FOO-1 https://x/BAR-2'' \<and>
   issue_in_url ''BAR-2'' ''https://x/FOO-1 https://x/BAR-2'' \<and>
   \<not> respond_to_urls example_config \<and>
   extract_issues example_config ''https://x/FOO-1 https://x/BAR-2'' = [''BAR-2'']"
  by code_simp

text \<open>
  Claim C3 says that the keys come out in the order of their first occurrence in the text.
  In the message below FOO-1 occurs first and ends a URL; the loop removes the first two of
  its three occurrences (the first when it visits it, the second when it visits the third)
  and keeps the third, so FOO-1 comes out after BAR-2.
\<close>

theorem url_filter_breaks_first_occurrence_order:
  "findall_issue_keys ''https://x/FOO-1 FOO-1 BAR-2 FOO-1''
     = [''FOO-1'', ''FOO-1'', ''BAR-2'', ''FOO-1''] \<and>
   \<not> respond_to_urls example_config \<and>
   extract_issues example_config ''https://x/FOO-1 FOO-1 BAR-2 FOO-1'' = [''BAR-2'', ''FOO-1'']"
  by code_simp

end
